theory Spec2Isabelle
  imports Complex_Main
begin

section \<open>The CSV streaming manager (streaming\_data\_manager.py)\<close>

text \<open>
  A shallow embedding of class \<open>CSVStreamingManager\<close>. The manager's attributes are a
  record that every method takes and returns; what a method does to the outside (calling a
  subscriber, writing to Redis or Kafka, logging) is a list of events in the order the code
  performs them; what the outside does to the manager (the outcome of \<open>pd.read_csv\<close>, of
  \<open>stat()\<close>, of a subscriber call) is read from a record \<open>world\<close> that is a parameter of
  each attempt. An exception is a value: a method body returns the exception it leaves with,
  if any, next to the state it had reached.

  Values of type \<open>exn\<close> stand for instances of Python's \<open>Exception\<close>, which is what the
  code's \<open>except Exception\<close> clauses catch.
\<close>

subsection \<open>Tables\<close>

text \<open>
  The part of a pandas \<open>DataFrame\<close> the manager looks at: the number of rows, and the
  columns in order, each a name and a series. A series has a numeric dtype (int64 or
  float64, a missing value being NaN, here \<open>None\<close>) or dtype object (strings, a missing
  value being \<open>None\<close>). A numeric cell is the rational number that the machine number
  denotes; the only arithmetic the manager does on cells is comparing them with 10 and 0.
\<close>

datatype exn = FileNotFoundError | EmptyDataError | ParserError | TypeError | KeyError
  | OtherError string

datatype series = NumSeries "rat option list" | ObjSeries "string option list"

record dataframe =
  nrows :: nat
  cols :: "(string \<times> series) list"

definition df_len :: "dataframe \<Rightarrow> nat" where
  "df_len df = nrows df"

definition columns :: "dataframe \<Rightarrow> string list" where
  "columns df = map fst (cols df)"

text \<open>\<open>df[name]\<close>: the first column of that name, \<open>KeyError\<close> when there is none.\<close>

definition df_getitem :: "dataframe \<Rightarrow> string \<Rightarrow> exn + series" where
  "df_getitem df name = (case map_of (cols df) name of None \<Rightarrow> Inl KeyError | Some ser \<Rightarrow> Inr ser)"

text \<open>
  \<open>ser < k\<close> and \<open>ser == k\<close> for a number \<open>k\<close>, elementwise. On a numeric series NaN
  compares false. On an object series \<open>==\<close> is false everywhere, and \<open><\<close> raises
  \<open>TypeError\<close> at the first string it meets.
\<close>

fun series_lt :: "series \<Rightarrow> rat \<Rightarrow> exn + bool list" where
  "series_lt (NumSeries xs) k = Inr (map (\<lambda>x. case x of None \<Rightarrow> False | Some v \<Rightarrow> v < k) xs)"
| "series_lt (ObjSeries xs) k =
     (if list_ex (\<lambda>x. x \<noteq> None) xs then Inl TypeError else Inr (map (\<lambda>x. False) xs))"

fun series_eq :: "series \<Rightarrow> rat \<Rightarrow> bool list" where
  "series_eq (NumSeries xs) k = map (\<lambda>x. case x of None \<Rightarrow> False | Some v \<Rightarrow> v = k) xs"
| "series_eq (ObjSeries xs) k = map (\<lambda>x. False) xs"

text \<open>\<open>df[mask]\<close>: the rows at which the boolean mask is true.\<close>

definition take_mask :: "bool list \<Rightarrow> 'a list \<Rightarrow> 'a list" where
  "take_mask bs xs = map snd (filter fst (zip bs xs))"

fun series_mask :: "bool list \<Rightarrow> series \<Rightarrow> series" where
  "series_mask bs (NumSeries xs) = NumSeries (take_mask bs xs)"
| "series_mask bs (ObjSeries xs) = ObjSeries (take_mask bs xs)"

definition df_mask :: "dataframe \<Rightarrow> bool list \<Rightarrow> dataframe" where
  "df_mask df bs =
     \<lparr>nrows = length (filter (\<lambda>b. b) bs),
      cols = map (\<lambda>(name, ser). (name, series_mask bs ser)) (cols df)\<rparr>"

text \<open>\<open>df.select_dtypes(include=[np.number]).columns\<close>\<close>

fun is_numeric :: "series \<Rightarrow> bool" where
  "is_numeric (NumSeries xs) = True"
| "is_numeric (ObjSeries xs) = False"

definition select_dtypes_number :: "dataframe \<Rightarrow> string list" where
  "select_dtypes_number df = map fst (filter (\<lambda>(name, ser). is_numeric ser) (cols df))"

subsection \<open>The change summary, the manager, the world\<close>

text \<open>
  The dictionary built by \<open>_calculate_changes\<close> has one of two shapes:
  \<open>{"type": "initial_load", "rows": n}\<close>, or
  \<open>{"type": "update", "timestamp": t, "total_rows": n, "changes": c}\<close> where \<open>c\<close> is empty
  or holds \<open>"inventory_changes": {"low_stock": l, "out_of_stock": z}\<close>.
\<close>

record inventory_changes =
  low_stock :: nat
  out_of_stock :: nat

datatype changes =
    InitialLoad nat
  | Update string nat "inventory_changes option"

text \<open>
  A subscriber is a reference to a callable (a number); the list \<open>subscribers\<close> holds
  references, in the order of the \<open>append\<close> calls, with repetitions. \<open>redis_client\<close> and
  \<open>kafka_producer\<close> say whether the attribute holds a client (the constructor sets both to
  \<open>None\<close>).
\<close>

record manager =
  last_modified :: "rat option"
  last_data :: "dataframe option"
  subscribers :: "nat list"
  is_running :: bool
  redis_client :: bool
  kafka_producer :: bool

datatype event =
    Invoked nat dataframe changes
  | RedisSetex dataframe
  | KafkaSend dataframe changes
  | LogAddedSubscriber nat
  | LogRemovedSubscriber nat
  | LogSchemaWarning
  | LogProcessed nat
  | LogProcessingError exn
  | LogSubscriberError exn
  | LogBroadcastError exn
  | LogLoopError exn
  | LogFileNotFound
  | LogStarted
  | LogStopped

text \<open>
  What one run of \<open>_handle_file_change\<close> meets: the outcome of \<open>pd.read_csv\<close> (line 275),
  of \<open>stat().st_mtime\<close> (line 283), the clock, what each subscriber does when called
  (\<open>None\<close>: it returns; \<open>Some e\<close>: it raises \<open>e\<close>), and whether the Redis and Kafka calls
  raise. A subscriber is taken not to call back into the manager.
\<close>

record world =
  read_csv :: "exn + dataframe"
  stat_mtime :: "exn + rat"
  now :: string
  run_callback :: "nat \<Rightarrow> dataframe \<Rightarrow> changes \<Rightarrow> exn option"
  redis_setex :: "exn option"
  kafka_send :: "exn option"

definition expected_columns :: "string list" where
  "expected_columns =
     [''Date'', ''Store ID'', ''Product ID'', ''Category'', ''Region'',
      ''Inventory Level'', ''Units Sold'', ''Units Ordered'', ''Demand Forecast'',
      ''Price'', ''Discount'', ''Weather Condition'', ''Holiday/Promotion'',
      ''Competitor Pricing'', ''Seasonality'']"

definition init :: manager where
  "init = \<lparr>last_modified = None, last_data = None, subscribers = [], is_running = False,
           redis_client = False, kafka_producer = False\<rparr>"

subsection \<open>Subscribing\<close>

definition subscribe :: "nat \<Rightarrow> manager \<Rightarrow> manager \<times> event list" where
  "subscribe callback s =
     (let s' = s\<lparr>subscribers := subscribers s @ [callback]\<rparr>
      in (s', [LogAddedSubscriber (length (subscribers s'))]))"

definition unsubscribe :: "nat \<Rightarrow> manager \<Rightarrow> manager \<times> event list" where
  "unsubscribe callback s =
     (if callback \<in> set (subscribers s) then
        (let s' = s\<lparr>subscribers := remove1 callback (subscribers s)\<rparr>
         in (s', [LogRemovedSubscriber (length (subscribers s'))]))
      else (s, []))"

subsection \<open>Processing a change\<close>

definition validate_columns :: "dataframe \<Rightarrow> bool" where
  "validate_columns df = list_all (\<lambda>col. col \<in> set (columns df)) expected_columns"

definition calculate_changes :: "string \<Rightarrow> manager \<Rightarrow> dataframe \<Rightarrow> exn + changes" where
  "calculate_changes timestamp s new_data =
     (case last_data s of
        None \<Rightarrow> Inr (InitialLoad (df_len new_data))
      | Some old \<Rightarrow>
          if ''Inventory Level'' \<in> set (columns new_data) \<and> ''Inventory Level'' \<in> set (columns old)
          then
            (case df_getitem new_data ''Inventory Level'' of
               Inl e \<Rightarrow> Inl e
             | Inr ser \<Rightarrow>
                 (case series_lt ser 10 of
                    Inl e \<Rightarrow> Inl e
                  | Inr low \<Rightarrow>
                      Inr (Update timestamp (df_len new_data)
                            (Some \<lparr>low_stock = df_len (df_mask new_data low),
                                   out_of_stock = df_len (df_mask new_data (series_eq ser 0))\<rparr>))))
          else Inr (Update timestamp (df_len new_data) None))"

text \<open>The loop of \<open>_notify_subscribers\<close>: each call in its own \<open>try\<close>.\<close>

fun notify_loop ::
  "(nat \<Rightarrow> dataframe \<Rightarrow> changes \<Rightarrow> exn option) \<Rightarrow> nat list \<Rightarrow> dataframe \<Rightarrow> changes \<Rightarrow> event list"
where
  "notify_loop call [] data chg = []"
| "notify_loop call (subscriber # rest) data chg =
     Invoked subscriber data chg #
     (case call subscriber data chg of None \<Rightarrow> [] | Some e \<Rightarrow> [LogSubscriberError e]) @
     notify_loop call rest data chg"

definition notify_subscribers :: "world \<Rightarrow> manager \<Rightarrow> dataframe \<Rightarrow> changes \<Rightarrow> manager \<times> event list" where
  "notify_subscribers w s data chg = (s, notify_loop (run_callback w) (subscribers s) data chg)"

text \<open>
  \<open>_broadcast_data\<close>: one \<open>try\<close> around the Redis and the Kafka call, so a Redis failure
  skips Kafka. The Socket.IO branch only builds a string.
\<close>

definition broadcast_data :: "world \<Rightarrow> manager \<Rightarrow> dataframe \<Rightarrow> changes \<Rightarrow> manager \<times> event list" where
  "broadcast_data w s data chg =
     (case (if redis_client s then redis_setex w else None) of
        Some e \<Rightarrow> (s, [LogBroadcastError e])
      | None \<Rightarrow>
          (case (if kafka_producer s then kafka_send w else None) of
             Some e \<Rightarrow> (s, (if redis_client s then [RedisSetex data] else []) @ [LogBroadcastError e])
           | None \<Rightarrow>
               (s, (if redis_client s then [RedisSetex data] else []) @
                   (if kafka_producer s then [KafkaSend data chg] else []))))"

text \<open>The two assignments of \<open>_handle_file_change\<close>, lines 283 and 289.\<close>

definition set_last_modified :: "rat \<Rightarrow> manager \<Rightarrow> manager" where
  "set_last_modified m s = s\<lparr>last_modified := Some m\<rparr>"

definition set_last_data :: "dataframe \<Rightarrow> manager \<Rightarrow> manager" where
  "set_last_data new_data s = s\<lparr>last_data := Some new_data\<rparr>"

text \<open>
  The body of the \<open>try\<close> of \<open>_handle_file_change\<close>: the state reached, the events so far,
  and the exception it leaves with, if any.
\<close>

definition handle_file_change_body :: "world \<Rightarrow> manager \<Rightarrow> manager \<times> event list \<times> exn option" where
  "handle_file_change_body w s =
     (case read_csv w of
        Inl e \<Rightarrow> (s, [], Some e)
      | Inr new_data \<Rightarrow>
          if \<not> validate_columns new_data then (s, [LogSchemaWarning], None)
          else
            (case stat_mtime w of
               Inl e \<Rightarrow> (s, [], Some e)
             | Inr m \<Rightarrow>
                 (let s1 = set_last_modified m s in
                  case calculate_changes (now w) s1 new_data of
                    Inl e \<Rightarrow> (s1, [], Some e)
                  | Inr chg \<Rightarrow>
                      (let s2 = set_last_data new_data s1;
                           (s3, ev3) = notify_subscribers w s2 new_data chg;
                           (s4, ev4) = broadcast_data w s3 new_data chg
                       in (s4, ev3 @ ev4 @ [LogProcessed (df_len new_data)], None)))))"

text \<open>\<open>_handle_file_change\<close>: the body under \<open>except Exception\<close>, which logs.\<close>

definition handle_file_change :: "world \<Rightarrow> manager \<Rightarrow> manager \<times> event list \<times> exn option" where
  "handle_file_change w s =
     (case handle_file_change_body w s of
        (s', evs, None) \<Rightarrow> (s', evs, None)
      | (s', evs, Some e) \<Rightarrow> (s', evs @ [LogProcessingError e], None))"

subsection \<open>The triggers: the polling loop and the file-system observer\<close>

text \<open>
  Line 259, the test of the polling loop, on the modification time just read.
\<close>

definition file_changed :: "rat \<Rightarrow> manager \<Rightarrow> bool" where
  "file_changed current_modified s =
     (case last_modified s of None \<Rightarrow> True | Some lm \<Rightarrow> current_modified > lm)"

text \<open>
  One pass of the \<open>while self.is_running\<close> loop of \<open>streaming_loop\<close>; \<open>st\<close> is the outcome
  of \<open>stat().st_mtime\<close> at line 257. The \<open>except\<close> of the loop logs. Sleeping is left out.
\<close>

definition streaming_loop_iteration ::
  "(exn + rat) \<Rightarrow> world \<Rightarrow> manager \<Rightarrow> manager \<times> event list \<times> exn option"
where
  "streaming_loop_iteration st w s =
     (case st of
        Inl e \<Rightarrow> (s, [LogLoopError e], None)
      | Inr current_modified \<Rightarrow>
          if file_changed current_modified s then handle_file_change w s else (s, [], None))"

text \<open>
  Whether a pass of the loop signals a change, that is, calls \<open>_handle_file_change\<close>.
\<close>

definition poll :: "(exn + rat) \<Rightarrow> manager \<Rightarrow> bool" where
  "poll st s = (case st of Inl e \<Rightarrow> False | Inr current_modified \<Rightarrow> file_changed current_modified s)"

text \<open>
  \<open>CSVFileHandler.on_modified\<close>; \<open>for_csv\<close> is the test on the event (not a directory, and
  the path of the CSV file).
\<close>

definition on_modified :: "bool \<Rightarrow> world \<Rightarrow> manager \<Rightarrow> manager \<times> event list \<times> exn option" where
  "on_modified for_csv w s = (if for_csv then handle_file_change w s else (s, [], None))"

text \<open>
  \<open>start_monitoring\<close> and \<open>stop_monitoring\<close>, as far as the attributes above go: the
  servers and threads they start and stop keep no state here.
\<close>

definition start_monitoring :: "bool \<Rightarrow> manager \<Rightarrow> manager \<times> event list \<times> bool" where
  "start_monitoring csv_exists s =
     (if \<not> csv_exists then (s, [LogFileNotFound], False)
      else (s\<lparr>is_running := True\<rparr>, [LogStarted], True))"

definition stop_monitoring :: "manager \<Rightarrow> manager \<times> event list" where
  "stop_monitoring s = (s\<lparr>is_running := False\<rparr>, [LogStopped])"

subsection \<open>Reading\<close>


text \<open>
  \<open>get_data_summary\<close> returns a dictionary, here the list of its items in insertion order.
  The pandas reductions it calls are parameters: \<open>Series.min\<close>, \<open>Series.max\<close> (which may
  raise) and \<open>describe().to_dict()\<close> on the numeric columns.
\<close>

datatype scalar = NumVal rat | StrVal string | NaNVal

type_synonym describe_dict = "(string \<times> (string \<times> rat option) list) list"

record pandas =
  series_min :: "series \<Rightarrow> exn + scalar"
  series_max :: "series \<Rightarrow> exn + scalar"
  describe_to_dict :: "dataframe \<Rightarrow> string list \<Rightarrow> describe_dict"

datatype summary_value =
    SumStr string
  | SumNat nat
  | SumColumns "string list"
  | SumDateRange "scalar option" "scalar option"
  | SumDescribe describe_dict

text \<open>\<open>self.last_data['Date'].min() if 'Date' in self.last_data.columns else None\<close>\<close>

definition date_bound :: "(series \<Rightarrow> exn + scalar) \<Rightarrow> dataframe \<Rightarrow> exn + scalar option" where
  "date_bound reduce df =
     (if ''Date'' \<in> set (columns df) then
        (case df_getitem df ''Date'' of
           Inl e \<Rightarrow> Inl e
         | Inr ser \<Rightarrow> (case reduce ser of Inl e \<Rightarrow> Inl e | Inr v \<Rightarrow> Inr (Some v)))
      else Inr None)"

definition get_data_summary ::
  "pandas \<Rightarrow> string \<Rightarrow> manager \<Rightarrow> exn + (string \<times> summary_value) list"
where
  "get_data_summary pd timestamp s =
     (case last_data s of
        None \<Rightarrow> Inr [(''error'', SumStr ''No data available'')]
      | Some df \<Rightarrow>
          (case date_bound (series_min pd) df of
             Inl e \<Rightarrow> Inl e
           | Inr start_date \<Rightarrow>
               (case date_bound (series_max pd) df of
                  Inl e \<Rightarrow> Inl e
                | Inr end_date \<Rightarrow>
                    (let summary =
                           [(''timestamp'', SumStr timestamp),
                            (''total_rows'', SumNat (df_len df)),
                            (''columns'', SumColumns (columns df)),
                            (''date_range'', SumDateRange start_date end_date)];
                         numeric_columns = select_dtypes_number df
                     in if length numeric_columns > 0
                        then Inr (summary @
                               [(''numerical_summary'',
                                 SumDescribe (describe_to_dict pd df numeric_columns))])
                        else Inr summary))))"

subsection \<open>Runs of the manager\<close>

text \<open>
  The calls that reach a manager after its construction, each taken as one step: calls of
  the public methods, passes of the polling loop (which runs while \<open>is_running\<close>) and
  events of the observer. Steps do not overlap in time.
\<close>

datatype action =
    Subscribe nat
  | Unsubscribe nat
  | StartMonitoring bool
  | StopMonitoring
  | LoopIteration "exn + rat" world
  | OnModified bool world

fun step :: "action \<Rightarrow> manager \<Rightarrow> manager \<times> event list" where
  "step (Subscribe callback) s = subscribe callback s"
| "step (Unsubscribe callback) s = unsubscribe callback s"
| "step (StartMonitoring csv_exists) s =
     (case start_monitoring csv_exists s of (s', evs, ok) \<Rightarrow> (s', evs))"
| "step StopMonitoring s = stop_monitoring s"
| "step (LoopIteration st w) s =
     (if is_running s
      then (case streaming_loop_iteration st w s of (s', evs, raised) \<Rightarrow> (s', evs))
      else (s, []))"
| "step (OnModified for_csv w) s =
     (case on_modified for_csv w s of (s', evs, raised) \<Rightarrow> (s', evs))"

fun run :: "action list \<Rightarrow> manager \<Rightarrow> manager \<times> event list" where
  "run [] s = (s, [])"
| "run (a # rest) s =
     (case step a s of (s1, ev1) \<Rightarrow> (case run rest s1 of (s2, ev2) \<Rightarrow> (s2, ev1 @ ev2)))"

subsection \<open>Reading the event list\<close>

text \<open>
  The calls made to subscribers, in order, each with the arguments it got; and the events
  that hand data to a consumer (a subscriber, Redis, Kafka).
\<close>

fun invocation :: "event \<Rightarrow> (nat \<times> dataframe \<times> changes) option" where
  "invocation (Invoked callback data chg) = Some (callback, data, chg)"
| "invocation ev = None"

definition invocations :: "event list \<Rightarrow> (nat \<times> dataframe \<times> changes) list" where
  "invocations evs = List.map_filter invocation evs"

fun is_notification :: "event \<Rightarrow> bool" where
  "is_notification (Invoked callback data chg) = True"
| "is_notification (RedisSetex data) = True"
| "is_notification (KafkaSend data chg) = True"
| "is_notification ev = False"

text \<open>The world an action brings with it, if it is a trigger.\<close>

fun action_world :: "action \<Rightarrow> world option" where
  "action_world (LoopIteration st w) = Some w"
| "action_world (OnModified for_csv w) = Some w"
| "action_world a = None"

subsection \<open>Sample inputs\<close>

text \<open>
  A table with the fifteen expected columns and the given inventory levels, one row per
  level; a table with the columns and no row; a table with a column removed; a world in which the file parses to a given
  table, has a given modification time, and every consumer succeeds.
\<close>

definition sample_frame :: "rat list \<Rightarrow> dataframe" where
  "sample_frame levels =
     \<lparr>nrows = length levels,
      cols =
        [(''Date'', ObjSeries (map (\<lambda>v. Some ''2024-01-01'') levels)),
         (''Store ID'', ObjSeries (map (\<lambda>v. Some ''S001'') levels)),
         (''Product ID'', ObjSeries (map (\<lambda>v. Some ''P0001'') levels)),
         (''Category'', ObjSeries (map (\<lambda>v. Some ''Toys'') levels)),
         (''Region'', ObjSeries (map (\<lambda>v. Some ''North'') levels)),
         (''Inventory Level'', NumSeries (map Some levels)),
         (''Units Sold'', NumSeries (map (\<lambda>v. Some 1) levels)),
         (''Units Ordered'', NumSeries (map (\<lambda>v. Some 2) levels)),
         (''Demand Forecast'', NumSeries (map (\<lambda>v. Some 3) levels)),
         (''Price'', NumSeries (map (\<lambda>v. Some 4) levels)),
         (''Discount'', NumSeries (map (\<lambda>v. Some 0) levels)),
         (''Weather Condition'', ObjSeries (map (\<lambda>v. Some ''Sunny'') levels)),
         (''Holiday/Promotion'', NumSeries (map (\<lambda>v. Some 0) levels)),
         (''Competitor Pricing'', NumSeries (map (\<lambda>v. Some 5) levels)),
         (''Seasonality'', ObjSeries (map (\<lambda>v. Some ''Winter'') levels))]\<rparr>"

text \<open>What \<open>pd.read_csv\<close> makes of a file that holds the header line only.\<close>

definition header_only_frame :: dataframe where
  "header_only_frame = \<lparr>nrows = 0, cols = map (\<lambda>name. (name, ObjSeries [])) expected_columns\<rparr>"

definition drop_column :: "string \<Rightarrow> dataframe \<Rightarrow> dataframe" where
  "drop_column name df = df\<lparr>cols := filter (\<lambda>(n, ser). n \<noteq> name) (cols df)\<rparr>"

definition sample_world :: "dataframe \<Rightarrow> rat \<Rightarrow> world" where
  "sample_world df m =
     \<lparr>read_csv = Inr df, stat_mtime = Inr m, now = ''2024-01-01T00:00:00'',
      run_callback = (\<lambda>callback data chg. None), redis_setex = None, kafka_send = None\<rparr>"

text \<open>The same world, except that every subscriber raises.\<close>

definition raising_world :: "dataframe \<Rightarrow> rat \<Rightarrow> world" where
  "raising_world df m =
     (sample_world df m)\<lparr>run_callback := (\<lambda>callback data chg. Some (OtherError ''boom''))\<rparr>"

text \<open>Managers with one subscriber, with two, and with one subscribed twice.\<close>

definition one_subscriber :: manager where
  "one_subscriber = fst (subscribe 1 init)"

definition two_subscribers :: manager where
  "two_subscribers = fst (subscribe 2 (fst (subscribe 1 init)))"

definition subscribed_twice :: manager where
  "subscribed_twice = fst (subscribe 7 (fst (subscribe 7 init)))"

text \<open>The manager after one commit: a one-row table, read at modification time 3.\<close>

definition committed_once :: manager where
  "committed_once = fst (handle_file_change (sample_world (sample_frame [1]) 3) init)"

text \<open>A pandas whose reductions give NaN on an empty series and a fixed date otherwise.\<close>

definition sample_pandas :: pandas where
  "sample_pandas =
     \<lparr>series_min =
        (\<lambda>ser. if ser = ObjSeries [] \<or> ser = NumSeries [] then Inr NaNVal
               else Inr (StrVal ''2024-01-01'')),
      series_max =
        (\<lambda>ser. if ser = ObjSeries [] \<or> ser = NumSeries [] then Inr NaNVal
               else Inr (StrVal ''2024-01-01'')),
      describe_to_dict = (\<lambda>df names. map (\<lambda>n. (n, [(''count'', Some (of_nat (df_len df)))])) names)\<rparr>"

section \<open>Properties\<close>

subsection \<open>Events and paths\<close>

lemma broadcast_data_state: "fst (broadcast_data w s data chg) = s"
  by (simp add: broadcast_data_def split: option.splits)

lemma broadcast_data_invocations: "invocations (snd (broadcast_data w s data chg)) = []"
  by (simp add: broadcast_data_def invocations_def List.map_filter_simps split: option.splits)

lemma invocations_append: "invocations (xs @ ys) = invocations xs @ invocations ys"
  by (simp add: invocations_def List.map_filter_def)

lemma invocations_Nil: "invocations [] = []"
  by (simp add: invocations_def List.map_filter_simps)

lemma invocations_Cons:
  "invocations (ev # evs) =
     (case invocation ev of None \<Rightarrow> invocations evs | Some x \<Rightarrow> x # invocations evs)"
  unfolding invocations_def by (simp add: List.map_filter_simps)

lemma invocations_notify_loop:
  "invocations (notify_loop call subs data chg) = map (\<lambda>cb. (cb, data, chg)) subs"
proof (induction subs)
  case Nil
  show ?case by (simp add: invocations_Nil)
next
  case (Cons cb subs)
  show ?case
  proof (cases "call cb data chg")
    case None
    with Cons show ?thesis by (simp add: invocations_Cons)
  next
    case (Some e)
    with Cons show ?thesis by (simp add: invocations_Cons)
  qed
qed

lemma notify_loop_logs_raise:
  "cb \<in> set subs \<Longrightarrow> call cb data chg = Some e \<Longrightarrow>
     LogSubscriberError e \<in> set (notify_loop call subs data chg)"
  by (induction subs) auto

lemma notify_loop_invokes:
  "cb \<in> set subs \<Longrightarrow> Invoked cb data chg \<in> set (notify_loop call subs data chg)"
  by (induction subs) auto

text \<open>What \<open>handle_file_change\<close> returns, path by path.\<close>

lemma handle_file_change_parse_error:
  "read_csv w = Inl e \<Longrightarrow> handle_file_change w s = (s, [LogProcessingError e], None)"
  by (simp add: handle_file_change_def handle_file_change_body_def)

lemma handle_file_change_schema:
  "read_csv w = Inr nd \<Longrightarrow> \<not> validate_columns nd \<Longrightarrow>
     handle_file_change w s = (s, [LogSchemaWarning], None)"
  by (simp add: handle_file_change_def handle_file_change_body_def)

lemma handle_file_change_stat_error:
  "read_csv w = Inr nd \<Longrightarrow> validate_columns nd \<Longrightarrow> stat_mtime w = Inl e \<Longrightarrow>
     handle_file_change w s = (s, [LogProcessingError e], None)"
  by (simp add: handle_file_change_def handle_file_change_body_def)

lemma handle_file_change_calc_error:
  "read_csv w = Inr nd \<Longrightarrow> validate_columns nd \<Longrightarrow> stat_mtime w = Inr m \<Longrightarrow>
   calculate_changes (now w) (set_last_modified m s) nd = Inl e \<Longrightarrow>
     handle_file_change w s = (set_last_modified m s, [LogProcessingError e], None)"
  by (simp add: handle_file_change_def handle_file_change_body_def)

lemma handle_file_change_commit:
  "read_csv w = Inr nd \<Longrightarrow> validate_columns nd \<Longrightarrow> stat_mtime w = Inr m \<Longrightarrow>
   calculate_changes (now w) (set_last_modified m s) nd = Inr chg \<Longrightarrow>
     handle_file_change w s =
       (set_last_data nd (set_last_modified m s),
        notify_loop (run_callback w) (subscribers s) nd chg @
        snd (broadcast_data w (set_last_data nd (set_last_modified m s)) nd chg) @
        [LogProcessed (df_len nd)],
        None)"
  by (simp add: handle_file_change_def handle_file_change_body_def notify_subscribers_def
      set_last_data_def set_last_modified_def Let_def split: prod.splits)
     (metis broadcast_data_state fst_conv)

lemma handle_file_change_not_raised: "snd (snd (handle_file_change w s)) = None"
  by (simp add: handle_file_change_def split: prod.splits option.splits)

lemma validate_columns_iff:
  "validate_columns df \<longleftrightarrow> (\<forall>col \<in> set expected_columns. col \<in> set (columns df))"
  by (simp add: validate_columns_def list_all_iff)

lemma frame_without_price_invalid:
  "\<not> validate_columns (drop_column ''Price'' (sample_frame levels))"
  by (simp add: validate_columns_def sample_frame_def columns_def expected_columns_def drop_column_def)

lemma sample_frame_valid: "validate_columns (sample_frame levels)"
  by (simp add: validate_columns_def sample_frame_def columns_def expected_columns_def)

lemma header_only_frame_valid: "validate_columns header_only_frame"
  by (simp add: validate_columns_iff header_only_frame_def columns_def comp_def)

subsection \<open>Failed attempts\<close>

text \<open>
  Claim C3. An attempt in which \<open>pd.read_csv\<close> raises, or in which the parsed table lacks
  one of the expected columns, ends without an exception, leaves the whole state as it was
  (so the stored table and the stored modification time too), and produces no event that
  hands data to a subscriber, to Redis or to Kafka.
\<close>

theorem failed_attempt_keeps_state:
  assumes "(\<exists>e. read_csv w = Inl e) \<or>
           (\<exists>nd. read_csv w = Inr nd \<and> (\<exists>col \<in> set expected_columns. col \<notin> set (columns nd)))"
  shows "\<exists>evs. handle_file_change w s = (s, evs, None) \<and>
               (\<forall>ev \<in> set evs. \<not> is_notification ev) \<and>
               last_data (fst (handle_file_change w s)) = last_data s \<and>
               last_modified (fst (handle_file_change w s)) = last_modified s"
  using assms
proof (elim disjE exE conjE)
  fix e assume "read_csv w = Inl e"
  then have "handle_file_change w s = (s, [LogProcessingError e], None)"
    by (rule handle_file_change_parse_error)
  then show ?thesis by simp
next
  fix nd assume rd: "read_csv w = Inr nd"
    and miss: "\<exists>col \<in> set expected_columns. col \<notin> set (columns nd)"
  from miss have "\<not> validate_columns nd" by (simp add: validate_columns_iff)
  with rd have "handle_file_change w s = (s, [LogSchemaWarning], None)"
    by (rule handle_file_change_schema)
  then show ?thesis by simp
qed

theorem failed_attempt_keeps_state_witness:
  "(\<exists>evs. handle_file_change (sample_world (drop_column ''Price'' (sample_frame [0, 5])) 7)
             (init\<lparr>last_modified := Some 3, last_data := Some (sample_frame [1]), subscribers := [1]\<rparr>)
           = (init\<lparr>last_modified := Some 3, last_data := Some (sample_frame [1]), subscribers := [1]\<rparr>, evs, None)
         \<and> (\<forall>ev \<in> set evs. \<not> is_notification ev))
   \<and> (\<exists>evs. handle_file_change ((sample_world (sample_frame [0, 5]) 7)\<lparr>read_csv := Inl ParserError\<rparr>)
             (init\<lparr>last_modified := Some 3, last_data := Some (sample_frame [1]), subscribers := [1]\<rparr>)
           = (init\<lparr>last_modified := Some 3, last_data := Some (sample_frame [1]), subscribers := [1]\<rparr>, evs, None)
         \<and> (\<forall>ev \<in> set evs. \<not> is_notification ev))"
proof -
  let ?s = "init\<lparr>last_modified := Some 3, last_data := Some (sample_frame [1]), subscribers := [1]\<rparr>"
  let ?w1 = "sample_world (drop_column ''Price'' (sample_frame [0, 5])) 7"
  let ?w2 = "(sample_world (sample_frame [0, 5]) 7)\<lparr>read_csv := Inl ParserError\<rparr>"
  have h1: "(\<exists>e. read_csv ?w1 = Inl e) \<or>
        (\<exists>nd. read_csv ?w1 = Inr nd \<and> (\<exists>col \<in> set expected_columns. col \<notin> set (columns nd)))"
    by (simp add: sample_world_def sample_frame_def drop_column_def columns_def expected_columns_def)
  have h2: "(\<exists>e. read_csv ?w2 = Inl e) \<or>
        (\<exists>nd. read_csv ?w2 = Inr nd \<and> (\<exists>col \<in> set expected_columns. col \<notin> set (columns nd)))"
    by (simp add: sample_world_def)
  from failed_attempt_keeps_state [OF h1, of ?s] failed_attempt_keeps_state [OF h2, of ?s]
  show ?thesis by blast
qed

subsection \<open>Subscribers\<close>

lemma notify_subscribers_state: "fst (notify_subscribers w s data chg) = s"
  by (simp add: notify_subscribers_def)

lemma set_last_subscribers:
  "subscribers (set_last_data nd (set_last_modified m s)) = subscribers s"
  "subscribers (set_last_modified m s) = subscribers s"
  by (simp_all add: set_last_data_def set_last_modified_def)

lemma handle_file_change_subscribers:
  "subscribers (fst (handle_file_change w s)) = subscribers s"
proof (cases "read_csv w")
  case (Inl e)
  then show ?thesis by (simp add: handle_file_change_parse_error)
next
  case (Inr nd)
  note rd = this
  show ?thesis
  proof (cases "validate_columns nd")
    case False
    with rd show ?thesis by (simp add: handle_file_change_schema)
  next
    case True
    note ok = this
    show ?thesis
    proof (cases "stat_mtime w")
      case (Inl e)
      with rd ok show ?thesis by (simp add: handle_file_change_stat_error)
    next
      case (Inr m)
      note st = this
      show ?thesis
      proof (cases "calculate_changes (now w) (set_last_modified m s) nd")
        case (Inl e)
        with rd ok st show ?thesis
          by (simp add: handle_file_change_calc_error set_last_subscribers)
      next
        case (Inr chg)
        with rd ok st show ?thesis
          by (simp add: handle_file_change_commit set_last_subscribers)
      qed
    qed
  qed
qed

lemma step_subscribers:
  "subscribers (fst (step a s)) =
     (case a of Subscribe cb \<Rightarrow> subscribers s @ [cb]
      | Unsubscribe cb \<Rightarrow> remove1 cb (subscribers s)
      | _ \<Rightarrow> subscribers s)"
proof (cases a)
  case (Subscribe cb)
  then show ?thesis by (simp add: subscribe_def)
next
  case (Unsubscribe cb)
  then show ?thesis by (simp add: unsubscribe_def remove1_idem)
next
  case (StartMonitoring b)
  then show ?thesis by (simp add: start_monitoring_def)
next
  case StopMonitoring
  then show ?thesis by (simp add: stop_monitoring_def)
next
  case (LoopIteration st w)
  have "subscribers (fst (streaming_loop_iteration st w s)) = subscribers s"
    by (simp add: streaming_loop_iteration_def handle_file_change_subscribers split: sum.splits)
  with LoopIteration show ?thesis by (cases "streaming_loop_iteration st w s") auto
next
  case (OnModified b w)
  have "subscribers (fst (on_modified b w s)) = subscribers s"
    by (simp add: on_modified_def handle_file_change_subscribers)
  with OnModified show ?thesis by (cases "on_modified b w s") auto
qed

text \<open>
  Claim C4. In a dispatch where a registered subscriber raises, the exception is logged,
  every registered subscriber is still called with the same table and change summary (the
  calls of the dispatch are exactly the subscriber list, in order), and the subscriber list
  is untouched: the raising subscriber is called again by any later dispatch, and stays
  registered through every step other than its own \<open>unsubscribe\<close>.
\<close>

theorem raising_subscriber_isolated:
  assumes reg: "cb \<in> set (subscribers s)"
    and raises: "run_callback w cb data chg = Some e"
  shows "LogSubscriberError e \<in> set (snd (notify_subscribers w s data chg)) \<and>
         (\<forall>other \<in> set (subscribers s).
            Invoked other data chg \<in> set (snd (notify_subscribers w s data chg))) \<and>
         invocations (snd (notify_subscribers w s data chg)) =
           map (\<lambda>r. (r, data, chg)) (subscribers s) \<and>
         fst (notify_subscribers w s data chg) = s \<and>
         (\<forall>w' data' chg'. Invoked cb data' chg' \<in>
            set (snd (notify_subscribers w' (fst (notify_subscribers w s data chg)) data' chg'))) \<and>
         cb \<in> set (subscribers (fst (handle_file_change w s))) \<and>
         (\<forall>a. a \<noteq> Unsubscribe cb \<longrightarrow> cb \<in> set (subscribers (fst (step a s))))"
proof (intro conjI allI impI)
  show "LogSubscriberError e \<in> set (snd (notify_subscribers w s data chg))"
    using reg raises by (simp add: notify_subscribers_def notify_loop_logs_raise)
  show "\<forall>other \<in> set (subscribers s). Invoked other data chg \<in> set (snd (notify_subscribers w s data chg))"
    by (simp add: notify_subscribers_def notify_loop_invokes)
  show "invocations (snd (notify_subscribers w s data chg)) = map (\<lambda>r. (r, data, chg)) (subscribers s)"
    by (simp add: notify_subscribers_def invocations_notify_loop)
  show "fst (notify_subscribers w s data chg) = s"
    by (rule notify_subscribers_state)
  show "Invoked cb data' chg' \<in> set (snd (notify_subscribers w' (fst (notify_subscribers w s data chg)) data' chg'))"
    for w' data' chg'
    using reg by (simp add: notify_subscribers_def notify_loop_invokes)
  show "cb \<in> set (subscribers (fst (handle_file_change w s)))"
    using reg by (simp add: handle_file_change_subscribers)
  show "cb \<in> set (subscribers (fst (step a s)))" if "a \<noteq> Unsubscribe cb" for a
  proof (cases a)
    case (Unsubscribe other)
    with that have "other \<noteq> cb" by simp
    with reg Unsubscribe step_subscribers [of a s] show ?thesis by simp
  qed (use reg step_subscribers [of a s] in simp_all)
qed

theorem raising_subscriber_isolated_witness:
  "1 \<in> set (subscribers two_subscribers) \<and>
   run_callback (raising_world (sample_frame [5]) 1) 1 (sample_frame [5]) (InitialLoad 1)
     = Some (OtherError ''boom'') \<and>
   LogSubscriberError (OtherError ''boom'') \<in>
     set (snd (notify_subscribers (raising_world (sample_frame [5]) 1) two_subscribers
                 (sample_frame [5]) (InitialLoad 1))) \<and>
   invocations (snd (notify_subscribers (raising_world (sample_frame [5]) 1) two_subscribers
                 (sample_frame [5]) (InitialLoad 1)))
     = [(1, sample_frame [5], InitialLoad 1), (2, sample_frame [5], InitialLoad 1)] \<and>
   1 \<in> set (subscribers (fst (handle_file_change (raising_world (sample_frame [5]) 1) two_subscribers)))"
proof -
  have reg: "1 \<in> set (subscribers two_subscribers)"
    by (simp add: two_subscribers_def subscribe_def init_def)
  have raises: "run_callback (raising_world (sample_frame [5]) 1) 1 (sample_frame [5]) (InitialLoad 1)
     = Some (OtherError ''boom'')"
    by (simp add: raising_world_def sample_world_def)
  have subs: "subscribers two_subscribers = [1, 2]"
    by (simp add: two_subscribers_def subscribe_def init_def)
  from raising_subscriber_isolated [OF reg raises] reg raises subs show ?thesis
    by simp
qed

text \<open>
  Claim C5 says that a subscriber that raises during a dispatch is dropped from the
  registry. It is not: after a committed change in which subscriber 1 raised (the error is
  in the log), subscriber 1 is still registered.
\<close>

theorem raising_subscriber_dropped_counterexample:
  "LogSubscriberError (OtherError ''boom'') \<in>
     set (fst (snd (handle_file_change (raising_world (sample_frame [5]) 1) one_subscriber))) \<and>
   1 \<in> set (subscribers (fst (handle_file_change (raising_world (sample_frame [5]) 1) one_subscriber)))"
proof -
  let ?w = "raising_world (sample_frame [5]) 1"
  have rd: "read_csv ?w = Inr (sample_frame [5])" and st: "stat_mtime ?w = Inr 1"
    by (simp_all add: raising_world_def sample_world_def)
  have calc: "calculate_changes (now ?w) (set_last_modified 1 one_subscriber) (sample_frame [5])
      = Inr (InitialLoad 1)"
    by (simp add: calculate_changes_def set_last_modified_def one_subscriber_def subscribe_def
        init_def df_len_def sample_frame_def)
  have subs: "subscribers one_subscriber = [1]"
    by (simp add: one_subscriber_def subscribe_def init_def)
  have run: "run_callback ?w = (\<lambda>callback data chg. Some (OtherError ''boom''))"
    by (simp add: raising_world_def sample_world_def)
  show ?thesis
    by (simp add: handle_file_change_commit [OF rd sample_frame_valid st calc] subs run
        set_last_data_def set_last_modified_def)
qed

text \<open>
  Claim C5, amended. A dispatch, and a whole run of \<open>_handle_file_change\<close>, leave the
  subscriber list as it was, whether or not a subscriber raises; \<open>unsubscribe\<close> removes
  one registration of its argument; and no step other than \<open>unsubscribe\<close> of a
  subscriber makes a registered subscriber unregistered.
\<close>

theorem only_unsubscribe_removes:
  "subscribers (fst (notify_subscribers w s data chg)) = subscribers s \<and>
   subscribers (fst (handle_file_change w s)) = subscribers s \<and>
   subscribers (fst (unsubscribe cb s)) = remove1 cb (subscribers s) \<and>
   (\<forall>a. cb \<in> set (subscribers s) \<and> cb \<notin> set (subscribers (fst (step a s)))
        \<longrightarrow> a = Unsubscribe cb)"
proof (intro conjI allI impI)
  show "subscribers (fst (notify_subscribers w s data chg)) = subscribers s"
    by (simp add: notify_subscribers_state)
  show "subscribers (fst (handle_file_change w s)) = subscribers s"
    by (rule handle_file_change_subscribers)
  show "subscribers (fst (unsubscribe cb s)) = remove1 cb (subscribers s)"
    by (simp add: unsubscribe_def remove1_idem)
  show "a = Unsubscribe cb"
    if h: "cb \<in> set (subscribers s) \<and> cb \<notin> set (subscribers (fst (step a s)))" for a
  proof (cases a)
    case (Unsubscribe other)
    with h step_subscribers [of a s] have "other = cb" by (cases "other = cb") auto
    with Unsubscribe show ?thesis by simp
  qed (use h step_subscribers [of a s] in auto)
qed

theorem only_unsubscribe_removes_witness:
  "1 \<in> set (subscribers one_subscriber) \<and>
   1 \<notin> set (subscribers (fst (step (Unsubscribe 1) one_subscriber))) \<and>
   subscribers (fst (handle_file_change (raising_world (sample_frame [5]) 1) one_subscriber)) = [1]"
proof -
  have subs: "subscribers one_subscriber = [1]"
    by (simp add: one_subscriber_def subscribe_def init_def)
  from only_unsubscribe_removes [of "raising_world (sample_frame [5]) 1" one_subscriber
      "sample_frame [5]" "InitialLoad 1" 1] subs
  show ?thesis by (simp add: unsubscribe_def)
qed

lemma count_list_distinct: "distinct xs \<Longrightarrow> count_list xs x \<le> 1"
  by (induction xs) auto

lemma invoked_callbacks:
  "map fst (invocations (snd (notify_subscribers w s data chg))) = subscribers s"
  by (simp add: notify_subscribers_def invocations_notify_loop comp_def)

text \<open>
  Claim C6 says that a subscriber is called at most once per dispatch also when it was
  passed to \<open>subscribe\<close> more than once. \<open>subscribe\<close> appends without looking: a
  subscriber registered twice is called twice in one dispatch.
\<close>

theorem subscribed_twice_counterexample:
  "count_list (map fst (invocations (snd (notify_subscribers (sample_world (sample_frame [5]) 1)
       subscribed_twice (sample_frame [5]) (InitialLoad 1))))) 7 = 2"
  by (simp add: invoked_callbacks subscribed_twice_def subscribe_def init_def)

text \<open>
  Claim C6, amended. In one dispatch a subscriber is called once for each time it occurs in
  the subscriber list (\<open>subscribe\<close> appends one occurrence per call), so at most once when
  the list has no repetition; every call of the dispatch gets the same table and change
  summary.
\<close>

theorem invoked_once_per_subscription:
  "count_list (map fst (invocations (snd (notify_subscribers w s data chg)))) cb
     = count_list (subscribers s) cb \<and>
   (\<forall>i \<in> set (invocations (snd (notify_subscribers w s data chg))). snd i = (data, chg)) \<and>
   (distinct (subscribers s) \<longrightarrow>
      count_list (map fst (invocations (snd (notify_subscribers w s data chg)))) cb \<le> 1) \<and>
   subscribers (fst (subscribe cb s)) = subscribers s @ [cb]"
proof (intro conjI impI)
  show "count_list (map fst (invocations (snd (notify_subscribers w s data chg)))) cb
     = count_list (subscribers s) cb"
    by (simp add: invoked_callbacks)
  show "\<forall>i \<in> set (invocations (snd (notify_subscribers w s data chg))). snd i = (data, chg)"
    by (auto simp add: notify_subscribers_def invocations_notify_loop)
  show "count_list (map fst (invocations (snd (notify_subscribers w s data chg)))) cb \<le> 1"
    if "distinct (subscribers s)"
    using that count_list_distinct [of "subscribers s" cb] by (simp add: invoked_callbacks)
  show "subscribers (fst (subscribe cb s)) = subscribers s @ [cb]"
    by (simp add: subscribe_def)
qed

theorem invoked_once_per_subscription_witness:
  "distinct (subscribers two_subscribers) \<and>
   count_list (map fst (invocations (snd (notify_subscribers (sample_world (sample_frame [5]) 1)
       two_subscribers (sample_frame [5]) (InitialLoad 1))))) 2 = 1 \<and>
   map snd (invocations (snd (notify_subscribers (sample_world (sample_frame [5]) 1)
       two_subscribers (sample_frame [5]) (InitialLoad 1))))
     = [(sample_frame [5], InitialLoad 1), (sample_frame [5], InitialLoad 1)]"
proof -
  have subs: "subscribers two_subscribers = [1, 2]"
    by (simp add: two_subscribers_def subscribe_def init_def)
  have calls: "invocations (snd (notify_subscribers (sample_world (sample_frame [5]) 1)
       two_subscribers (sample_frame [5]) (InitialLoad 1)))
     = [(1, sample_frame [5], InitialLoad 1), (2, sample_frame [5], InitialLoad 1)]"
    by (simp only: notify_subscribers_def snd_conv invocations_notify_loop subs list.map)
  from invoked_once_per_subscription [of "sample_world (sample_frame [5]) 1" two_subscribers
      "sample_frame [5]" "InitialLoad 1" 2] subs calls
  show ?thesis by simp
qed

subsection \<open>The change summary\<close>

lemma validate_columns_inventory:
  "validate_columns df \<Longrightarrow> ''Inventory Level'' \<in> set (columns df)"
  by (simp add: validate_columns_def expected_columns_def)

lemma df_getitem_column:
  "df_getitem df name = Inr ser \<Longrightarrow> name \<in> set (columns df)"
proof -
  assume "df_getitem df name = Inr ser"
  then have "map_of (cols df) name = Some ser"
    by (simp add: df_getitem_def split: option.splits)
  then have "(name, ser) \<in> set (cols df)" by (rule map_of_SomeD)
  then have "fst (name, ser) \<in> fst ` set (cols df)" by (rule imageI)
  then show ?thesis by (simp add: columns_def)
qed

lemma df_len_mask: "df_len (df_mask df bs) = length (filter (\<lambda>b. b) bs)"
  by (simp add: df_len_def df_mask_def)

lemma calculate_changes_initial:
  "last_data s = None \<Longrightarrow> calculate_changes t s nd = Inr (InitialLoad (df_len nd))"
  by (simp add: calculate_changes_def)

lemma calculate_changes_update:
  assumes "last_data s = Some old" and "''Inventory Level'' \<in> set (columns old)"
    and "df_getitem nd ''Inventory Level'' = Inr (NumSeries levels)"
  shows "calculate_changes t s nd =
           Inr (Update t (df_len nd)
                 (Some \<lparr>low_stock = length (filter (\<lambda>x. case x of None \<Rightarrow> False | Some v \<Rightarrow> v < 10) levels),
                        out_of_stock = length (filter (\<lambda>x. x = Some 0) levels)\<rparr>))"
proof -
  have col: "''Inventory Level'' \<in> set (columns nd)"
    using assms(3) by (rule df_getitem_column)
  have eq0: "(\<lambda>x. case x of None \<Rightarrow> False | Some v \<Rightarrow> v = (0::rat)) = (\<lambda>x. x = Some 0)"
    by (auto split: option.splits)
  show ?thesis
    using assms col
    by (simp add: calculate_changes_def df_len_mask eq0 comp_def)
qed

lemma commit_invocations:
  "invocations (notify_loop call subs nd chg @ snd (broadcast_data w s' nd chg) @ [LogProcessed n])
     = map (\<lambda>cb. (cb, nd, chg)) subs"
  by (simp add: invocations_append invocations_notify_loop broadcast_data_invocations
      invocations_Cons invocations_Nil)

lemma last_data_set:
  "last_data (set_last_modified m s) = last_data s"
  "last_data (set_last_data nd s) = Some nd"
  by (simp_all add: set_last_modified_def set_last_data_def)

text \<open>
  Claim C2, amended. For a table of 5 rows whose inventory levels are 0, 5, 50, 0, 20: when
  no table is stored yet (the first commit) the change summary is an initial load that
  carries the row count 5 and no indicator; when a table with an inventory column is
  already stored, the change summary is an update with \<open>low_stock\<close> 3 (levels below the
  fixed threshold 10) and \<open>out_of_stock\<close> 2.
\<close>

theorem five_row_source_deltas:
  assumes rows: "df_len df = 5"
    and levels: "df_getitem df ''Inventory Level'' = Inr (NumSeries (map Some [0, 5, 50, 0, 20]))"
  shows "(last_data s = None \<longrightarrow> calculate_changes t s df = Inr (InitialLoad 5)) \<and>
         (\<forall>old. last_data s = Some old \<and> ''Inventory Level'' \<in> set (columns old) \<longrightarrow>
            calculate_changes t s df =
              Inr (Update t 5 (Some \<lparr>low_stock = 3, out_of_stock = 2\<rparr>)))"
proof (intro conjI allI impI)
  assume "last_data s = None"
  then show "calculate_changes t s df = Inr (InitialLoad 5)"
    using rows by (simp add: calculate_changes_initial)
next
  fix old assume "last_data s = Some old \<and> ''Inventory Level'' \<in> set (columns old)"
  then have "calculate_changes t s df =
           Inr (Update t (df_len df)
                 (Some \<lparr>low_stock = length (filter (\<lambda>x. case x of None \<Rightarrow> False | Some v \<Rightarrow> v < 10)
                                         (map Some [0, 5, 50, 0, 20::rat])),
                        out_of_stock = length (filter (\<lambda>x. x = Some 0) (map Some [0, 5, 50, 0, 20::rat]))\<rparr>))"
    using levels by (intro calculate_changes_update) auto
  then show "calculate_changes t s df = Inr (Update t 5 (Some \<lparr>low_stock = 3, out_of_stock = 2\<rparr>))"
    using rows by simp
qed

lemma sample_frame_inventory:
  "df_getitem (sample_frame levels) ''Inventory Level'' = Inr (NumSeries (map Some levels))"
  by (simp add: df_getitem_def sample_frame_def)

lemma sample_frame_len: "df_len (sample_frame levels) = length levels"
  by (simp add: df_len_def sample_frame_def)

theorem five_row_source_deltas_witness:
  "df_len (sample_frame [0, 5, 50, 0, 20]) = 5 \<and>
   df_getitem (sample_frame [0, 5, 50, 0, 20]) ''Inventory Level''
     = Inr (NumSeries (map Some [0, 5, 50, 0, 20])) \<and>
   last_data init = None \<and>
   calculate_changes ''t'' init (sample_frame [0, 5, 50, 0, 20]) = Inr (InitialLoad 5) \<and>
   last_data (set_last_data (sample_frame [1]) init) = Some (sample_frame [1]) \<and>
   ''Inventory Level'' \<in> set (columns (sample_frame [1])) \<and>
   calculate_changes ''t'' (set_last_data (sample_frame [1]) init) (sample_frame [0, 5, 50, 0, 20])
     = Inr (Update ''t'' 5 (Some \<lparr>low_stock = 3, out_of_stock = 2\<rparr>))"
proof -
  have rows: "df_len (sample_frame [0, 5, 50, 0, 20]) = 5"
    by (simp add: sample_frame_len)
  have levels: "df_getitem (sample_frame [0, 5, 50, 0, 20]) ''Inventory Level''
     = Inr (NumSeries (map Some [0, 5, 50, 0, 20]))"
    by (rule sample_frame_inventory)
  have none: "last_data init = None" by (simp add: init_def)
  have some: "last_data (set_last_data (sample_frame [1]) init) = Some (sample_frame [1])"
    by (simp add: last_data_set)
  have col: "''Inventory Level'' \<in> set (columns (sample_frame [1]))"
    by (rule validate_columns_inventory [OF sample_frame_valid])
  from five_row_source_deltas [OF rows levels, of init "''t''"]
       five_row_source_deltas [OF rows levels, of "set_last_data (sample_frame [1]) init" "''t''"]
       rows levels none some col
  show ?thesis by blast
qed

text \<open>
  Claim C2 says that the change summary of the first commit of that table carries
  \<open>low_stock\<close> 3 and \<open>out_of_stock\<close> 2. The first commit passes an initial load to the
  subscriber, which holds the row count only.
\<close>

theorem first_delta_counterexample:
  "fst (snd (handle_file_change (sample_world (sample_frame [0, 5, 50, 0, 20]) 1) one_subscriber))
     = [Invoked 1 (sample_frame [0, 5, 50, 0, 20]) (InitialLoad 5), LogProcessed 5]"
proof -
  let ?df = "sample_frame [0, 5, 50, 0, 20]"
  let ?w = "sample_world ?df 1"
  have rd: "read_csv ?w = Inr ?df" and st: "stat_mtime ?w = Inr 1"
    by (simp_all add: sample_world_def)
  have none: "last_data (set_last_modified 1 one_subscriber) = None"
    by (simp add: last_data_set one_subscriber_def subscribe_def init_def)
  have calc: "calculate_changes (now ?w) (set_last_modified 1 one_subscriber) ?df = Inr (InitialLoad 5)"
    by (simp add: calculate_changes_initial [OF none] sample_frame_len)
  have subs: "subscribers one_subscriber = [1]"
    by (simp add: one_subscriber_def subscribe_def init_def)
  have quiet: "run_callback ?w = (\<lambda>callback data chg. None)"
    by (simp add: sample_world_def)
  have bc: "snd (broadcast_data ?w (set_last_data ?df (set_last_modified 1 one_subscriber)) ?df (InitialLoad 5)) = []"
    by (simp add: broadcast_data_def set_last_data_def set_last_modified_def one_subscriber_def
        subscribe_def init_def)
  show ?thesis
    by (simp add: handle_file_change_commit [OF rd sample_frame_valid st calc] subs quiet bc
        sample_frame_len)
qed

lemma commit_result:
  assumes "read_csv w = Inr nd" and "validate_columns nd" and "stat_mtime w = Inr m"
    and "calculate_changes (now w) (set_last_modified m s) nd = Inr chg"
  shows "fst (handle_file_change w s) = set_last_data nd (set_last_modified m s)"
    and "invocations (fst (snd (handle_file_change w s))) = map (\<lambda>cb. (cb, nd, chg)) (subscribers s)"
  by (simp_all add: handle_file_change_commit [OF assms] commit_invocations)

text \<open>
  Claim C1, amended. Two tables that pass the column check are committed one after the
  other, starting with nothing stored, the second having a numeric inventory column. The
  first commit computes an initial load and passes it to every subscriber; the second
  computes an update whose \<open>low_stock\<close> and \<open>out_of_stock\<close> count the rows of the second
  table itself (levels below 10, levels equal to 0) and passes it to every subscriber. The
  first table decides only that the second summary is an update.
\<close>

theorem two_commits_deltas:
  assumes v1: "validate_columns S1" and v2: "validate_columns S2"
    and numeric: "df_getitem S2 ''Inventory Level'' = Inr (NumSeries levels)"
    and fresh: "last_data s = None"
    and r1: "read_csv w1 = Inr S1" and t1: "stat_mtime w1 = Inr m1"
    and r2: "read_csv w2 = Inr S2" and t2: "stat_mtime w2 = Inr m2"
  shows "calculate_changes (now w1) (set_last_modified m1 s) S1 = Inr (InitialLoad (df_len S1)) \<and>
         invocations (fst (snd (handle_file_change w1 s)))
           = map (\<lambda>cb. (cb, S1, InitialLoad (df_len S1))) (subscribers s) \<and>
         last_data (fst (handle_file_change w1 s)) = Some S1 \<and>
         calculate_changes (now w2) (set_last_modified m2 (fst (handle_file_change w1 s))) S2
           = Inr (Update (now w2) (df_len S2)
                   (Some \<lparr>low_stock = length (filter (\<lambda>x. case x of None \<Rightarrow> False | Some v \<Rightarrow> v < 10) levels),
                          out_of_stock = length (filter (\<lambda>x. x = Some 0) levels)\<rparr>)) \<and>
         invocations (fst (snd (handle_file_change w2 (fst (handle_file_change w1 s)))))
           = map (\<lambda>cb. (cb, S2, Update (now w2) (df_len S2)
                   (Some \<lparr>low_stock = length (filter (\<lambda>x. case x of None \<Rightarrow> False | Some v \<Rightarrow> v < 10) levels),
                          out_of_stock = length (filter (\<lambda>x. x = Some 0) levels)\<rparr>)))
               (subscribers s) \<and>
         last_data (fst (handle_file_change w2 (fst (handle_file_change w1 s)))) = Some S2"
proof -
  let ?s1 = "set_last_data S1 (set_last_modified m1 s)"
  let ?chg2 = "Update (now w2) (df_len S2)
                   (Some \<lparr>low_stock = length (filter (\<lambda>x. case x of None \<Rightarrow> False | Some v \<Rightarrow> v < 10) levels),
                          out_of_stock = length (filter (\<lambda>x. x = Some 0) levels)\<rparr>)"
  have c1: "calculate_changes (now w1) (set_last_modified m1 s) S1 = Inr (InitialLoad (df_len S1))"
    using fresh by (simp add: calculate_changes_initial last_data_set)
  note h1 = commit_result [OF r1 v1 t1 c1]
  have old: "last_data (set_last_modified m2 ?s1) = Some S1"
    by (simp add: last_data_set)
  have c2: "calculate_changes (now w2) (set_last_modified m2 ?s1) S2 = Inr ?chg2"
    by (rule calculate_changes_update [OF old validate_columns_inventory [OF v1] numeric])
  note h2 = commit_result [OF r2 v2 t2 c2]
  have subs: "subscribers ?s1 = subscribers s" by (simp add: set_last_subscribers)
  show ?thesis
    unfolding h1 h2 subs using c1 c2 by (simp add: last_data_set)
qed

theorem two_commits_deltas_witness:
  "validate_columns (sample_frame [0]) \<and> validate_columns (sample_frame [50]) \<and>
   df_getitem (sample_frame [50]) ''Inventory Level'' = Inr (NumSeries [Some 50]) \<and>
   last_data one_subscriber = None \<and>
   invocations (fst (snd (handle_file_change (sample_world (sample_frame [0]) 1) one_subscriber)))
     = [(1, sample_frame [0], InitialLoad 1)] \<and>
   invocations (fst (snd (handle_file_change (sample_world (sample_frame [50]) 2)
       (fst (handle_file_change (sample_world (sample_frame [0]) 1) one_subscriber)))))
     = [(1, sample_frame [50],
         Update ''2024-01-01T00:00:00'' 1 (Some \<lparr>low_stock = 0, out_of_stock = 0\<rparr>))]"
proof -
  have numeric: "df_getitem (sample_frame [50]) ''Inventory Level'' = Inr (NumSeries [Some 50])"
    by (simp add: sample_frame_inventory)
  have fresh: "last_data one_subscriber = None"
    by (simp add: one_subscriber_def subscribe_def init_def)
  have r1: "read_csv (sample_world (sample_frame [0]) 1) = Inr (sample_frame [0])"
    and t1: "stat_mtime (sample_world (sample_frame [0]) 1) = Inr 1"
    and r2: "read_csv (sample_world (sample_frame [50]) 2) = Inr (sample_frame [50])"
    and t2: "stat_mtime (sample_world (sample_frame [50]) 2) = Inr 2"
    and clock: "now (sample_world (sample_frame [50]) 2) = ''2024-01-01T00:00:00''"
    by (simp_all add: sample_world_def)
  have subs: "subscribers one_subscriber = [1]"
    by (simp add: one_subscriber_def subscribe_def init_def)
  from two_commits_deltas [OF sample_frame_valid sample_frame_valid numeric fresh r1 t1 r2 t2]
  have "invocations (fst (snd (handle_file_change (sample_world (sample_frame [0]) 1) one_subscriber)))
     = map (\<lambda>cb. (cb, sample_frame [0], InitialLoad (df_len (sample_frame [0])))) (subscribers one_subscriber)"
    and "invocations (fst (snd (handle_file_change (sample_world (sample_frame [50]) 2)
       (fst (handle_file_change (sample_world (sample_frame [0]) 1) one_subscriber)))))
     = map (\<lambda>cb. (cb, sample_frame [50], Update (now (sample_world (sample_frame [50]) 2)) (df_len (sample_frame [50]))
                   (Some \<lparr>low_stock = length (filter (\<lambda>x. case x of None \<Rightarrow> False | Some v \<Rightarrow> v < 10) [Some (50::rat)]),
                          out_of_stock = length (filter (\<lambda>x. x = Some 0) [Some (50::rat)])\<rparr>)))
               (subscribers one_subscriber)"
    by blast+
  then show ?thesis
    using numeric fresh sample_frame_valid
    by (simp add: subs clock sample_frame_len)
qed

text \<open>
  Claim C1 says that the indicators of the update are computed against the table committed
  before. With a first table whose only row has level 0 (one row below 10, one row equal to
  0) and a second table whose only row has level 50, the update passed to the subscriber
  has \<open>low_stock\<close> 0 and \<open>out_of_stock\<close> 0: the counts of the second table.
\<close>

theorem update_indicators_counterexample:
  "df_getitem (sample_frame [0]) ''Inventory Level'' = Inr (NumSeries [Some 0]) \<and>
   series_lt (NumSeries [Some 0]) 10 = Inr [True] \<and>
   series_eq (NumSeries [Some 0]) 0 = [True] \<and>
   last_data (fst (handle_file_change (sample_world (sample_frame [0]) 1) one_subscriber))
     = Some (sample_frame [0]) \<and>
   invocations (fst (snd (handle_file_change (sample_world (sample_frame [50]) 2)
       (fst (handle_file_change (sample_world (sample_frame [0]) 1) one_subscriber)))))
     = [(1, sample_frame [50],
         Update ''2024-01-01T00:00:00'' 1 (Some \<lparr>low_stock = 0, out_of_stock = 0\<rparr>))]"
proof -
  let ?w1 = "sample_world (sample_frame [0]) 1" and ?w2 = "sample_world (sample_frame [50]) 2"
  let ?s1 = "set_last_data (sample_frame [0]) (set_last_modified 1 one_subscriber)"
  have fresh: "last_data one_subscriber = None"
    by (simp add: one_subscriber_def subscribe_def init_def)
  have r1: "read_csv ?w1 = Inr (sample_frame [0])" and t1: "stat_mtime ?w1 = Inr 1"
    and r2: "read_csv ?w2 = Inr (sample_frame [50])" and t2: "stat_mtime ?w2 = Inr 2"
    and clock: "now ?w2 = ''2024-01-01T00:00:00''"
    by (simp_all add: sample_world_def)
  have c1: "calculate_changes (now ?w1) (set_last_modified 1 one_subscriber) (sample_frame [0])
      = Inr (InitialLoad (df_len (sample_frame [0])))"
    using fresh by (simp add: calculate_changes_initial last_data_set)
  note h1 = commit_result [OF r1 sample_frame_valid t1 c1]
  have old: "last_data (set_last_modified 2 ?s1) = Some (sample_frame [0])"
    by (simp add: last_data_set)
  have numeric: "df_getitem (sample_frame [50]) ''Inventory Level'' = Inr (NumSeries [Some 50])"
    by (simp add: sample_frame_inventory)
  have c2: "calculate_changes (now ?w2) (set_last_modified 2 ?s1) (sample_frame [50])
      = Inr (Update ''2024-01-01T00:00:00'' 1 (Some \<lparr>low_stock = 0, out_of_stock = 0\<rparr>))"
    using calculate_changes_update [OF old validate_columns_inventory [OF sample_frame_valid] numeric,
        of "now ?w2"]
    by (simp add: clock sample_frame_len)
  note h2 = commit_result [OF r2 sample_frame_valid t2 c2]
  have subs: "subscribers ?s1 = [1]"
    by (simp add: set_last_subscribers one_subscriber_def subscribe_def init_def)
  have inv0: "df_getitem (sample_frame [0]) ''Inventory Level'' = Inr (NumSeries [Some 0])"
    by (simp add: sample_frame_inventory)
  show ?thesis
    unfolding h1 h2 subs using inv0 by (simp add: last_data_set)
qed

subsection \<open>The polling loop\<close>

lemma last_modified_set:
  "last_modified (set_last_modified m s) = Some m"
  "last_modified (set_last_data nd s) = last_modified s"
  by (simp_all add: set_last_modified_def set_last_data_def)

lemma handle_file_change_last_modified:
  "last_modified (fst (handle_file_change w s)) = last_modified s \<or>
   (\<exists>nd m. read_csv w = Inr nd \<and> validate_columns nd \<and> stat_mtime w = Inr m \<and>
            last_modified (fst (handle_file_change w s)) = Some m)"
proof (cases "read_csv w")
  case (Inl e)
  then show ?thesis by (simp add: handle_file_change_parse_error)
next
  case (Inr nd)
  note rd = this
  show ?thesis
  proof (cases "validate_columns nd")
    case False
    with rd show ?thesis by (simp add: handle_file_change_schema)
  next
    case True
    note ok = this
    show ?thesis
    proof (cases "stat_mtime w")
      case (Inl e)
      with rd ok show ?thesis by (simp add: handle_file_change_stat_error)
    next
      case (Inr m)
      note st = this
      show ?thesis
      proof (cases "calculate_changes (now w) (set_last_modified m s) nd")
        case (Inl e)
        with rd ok st show ?thesis
          by (simp add: handle_file_change_calc_error last_modified_set)
      next
        case (Inr chg)
        with rd ok st show ?thesis
          by (simp add: handle_file_change_commit last_modified_set)
      qed
    qed
  qed
qed

lemma handle_file_change_records_marker:
  assumes rd: "read_csv w = Inr nd" and ok: "validate_columns nd" and st: "stat_mtime w = Inr m"
  shows "last_modified (fst (handle_file_change w s)) = Some m"
proof (cases "calculate_changes (now w) (set_last_modified m s) nd")
  case (Inl e)
  with rd ok st show ?thesis
    by (simp add: handle_file_change_calc_error last_modified_set)
next
  case (Inr chg)
  with rd ok st show ?thesis
    by (simp add: handle_file_change_commit last_modified_set)
qed

lemma poll_iff:
  "poll st s \<longleftrightarrow>
     (\<exists>cur. st = Inr cur \<and> (last_modified s = None \<or> (\<exists>lm. last_modified s = Some lm \<and> lm < cur)))"
  by (cases st; cases "last_modified s") (simp_all add: poll_def file_changed_def)

lemma streaming_loop_iteration_poll:
  "streaming_loop_iteration st w s =
     (if poll st s then handle_file_change w s
      else (s, (case st of Inl e \<Rightarrow> [LogLoopError e] | Inr cur \<Rightarrow> []), None))"
  by (cases st) (simp_all add: streaming_loop_iteration_def poll_def)

text \<open>
  Claim C7, amended. A pass of the polling loop signals a change exactly when the
  modification time can be read and either no time is recorded or the time read is strictly
  greater than the recorded one. When the read fails, the pass logs, changes nothing and
  raises nothing. A pass that signals runs \<open>_handle_file_change\<close>, one that does not
  leaves the state alone. A pass that signals, whose table passes the column check and
  whose second read of the modification time (line 283) gives \<open>m\<close>, records \<open>m\<close>, so that
  a following pass does not signal for \<open>m\<close>; in every other pass the recorded time stays
  as it was (an attempt that fails to parse or to pass the column check records nothing).
  A pass never signals for a time equal to the recorded one.
\<close>

theorem poll_against_recorded_marker:
  "(poll st s \<longleftrightarrow>
      (\<exists>cur. st = Inr cur \<and>
         (last_modified s = None \<or> (\<exists>lm. last_modified s = Some lm \<and> lm < cur)))) \<and>
   (\<forall>e. st = Inl e \<longrightarrow>
      \<not> poll st s \<and> streaming_loop_iteration st w s = (s, [LogLoopError e], None)) \<and>
   snd (snd (streaming_loop_iteration st w s)) = None \<and>
   (poll st s \<longrightarrow> streaming_loop_iteration st w s = handle_file_change w s) \<and>
   (\<not> poll st s \<longrightarrow> fst (streaming_loop_iteration st w s) = s) \<and>
   (last_modified (fst (streaming_loop_iteration st w s)) = last_modified s \<or>
    (\<exists>nd m. poll st s \<and> read_csv w = Inr nd \<and> validate_columns nd \<and> stat_mtime w = Inr m \<and>
             last_modified (fst (streaming_loop_iteration st w s)) = Some m)) \<and>
   (\<forall>m. last_modified s = Some m \<longrightarrow> \<not> poll (Inr m) s) \<and>
   (\<forall>nd m. poll st s \<and> read_csv w = Inr nd \<and> validate_columns nd \<and> stat_mtime w = Inr m \<longrightarrow>
      last_modified (fst (streaming_loop_iteration st w s)) = Some m \<and>
      \<not> poll (Inr m) (fst (streaming_loop_iteration st w s))) \<and>
   (\<not> poll st s \<or> (\<exists>e. read_csv w = Inl e) \<or>
    (\<exists>nd. read_csv w = Inr nd \<and> \<not> validate_columns nd) \<or> (\<exists>e. stat_mtime w = Inl e) \<longrightarrow>
      fst (streaming_loop_iteration st w s) = s)"
proof (intro conjI allI impI)
  show "poll st s \<longleftrightarrow>
      (\<exists>cur. st = Inr cur \<and>
         (last_modified s = None \<or> (\<exists>lm. last_modified s = Some lm \<and> lm < cur)))"
    by (rule poll_iff)
  show "\<not> poll st s" if "st = Inl e" for e
    using that by (simp add: poll_def)
  show "streaming_loop_iteration st w s = (s, [LogLoopError e], None)" if "st = Inl e" for e
    using that by (simp add: streaming_loop_iteration_def)
  show "snd (snd (streaming_loop_iteration st w s)) = None"
    by (simp add: streaming_loop_iteration_poll handle_file_change_not_raised)
  show "streaming_loop_iteration st w s = handle_file_change w s" if "poll st s"
    using that by (simp add: streaming_loop_iteration_poll)
  show "fst (streaming_loop_iteration st w s) = s" if "\<not> poll st s"
    using that by (simp add: streaming_loop_iteration_poll)
  show "last_modified (fst (streaming_loop_iteration st w s)) = last_modified s \<or>
    (\<exists>nd m. poll st s \<and> read_csv w = Inr nd \<and> validate_columns nd \<and> stat_mtime w = Inr m \<and>
             last_modified (fst (streaming_loop_iteration st w s)) = Some m)"
    using handle_file_change_last_modified [of w s]
    by (cases "poll st s") (auto simp add: streaming_loop_iteration_poll)
  show "\<not> poll (Inr m) s" if "last_modified s = Some m" for m
    using that by (simp add: poll_def file_changed_def)
  show "last_modified (fst (streaming_loop_iteration st w s)) = Some m"
    if "poll st s \<and> read_csv w = Inr nd \<and> validate_columns nd \<and> stat_mtime w = Inr m" for nd m
    using that by (simp add: streaming_loop_iteration_poll handle_file_change_records_marker)
  show "\<not> poll (Inr m) (fst (streaming_loop_iteration st w s))"
    if "poll st s \<and> read_csv w = Inr nd \<and> validate_columns nd \<and> stat_mtime w = Inr m" for nd m
    using that
    by (simp add: streaming_loop_iteration_poll handle_file_change_records_marker
        poll_def file_changed_def)
  show "fst (streaming_loop_iteration st w s) = s"
    if h: "\<not> poll st s \<or> (\<exists>e. read_csv w = Inl e) \<or>
        (\<exists>nd. read_csv w = Inr nd \<and> \<not> validate_columns nd) \<or> (\<exists>e. stat_mtime w = Inl e)"
  proof (cases "poll st s")
    case False
    then show ?thesis by (simp add: streaming_loop_iteration_poll)
  next
    case True
    have "fst (handle_file_change w s) = s"
    proof (cases "read_csv w")
      case (Inl e)
      then show ?thesis by (simp add: handle_file_change_parse_error)
    next
      case (Inr nd)
      show ?thesis
      proof (cases "validate_columns nd")
        case False
        with Inr show ?thesis by (simp add: handle_file_change_schema)
      next
        case ok: True
        with h True Inr obtain e where "stat_mtime w = Inl e" by auto
        with Inr ok show ?thesis by (simp add: handle_file_change_stat_error)
      qed
    qed
    with True show ?thesis by (simp add: streaming_loop_iteration_poll)
  qed
qed

lemma committed_once_eq:
  "committed_once = set_last_data (sample_frame [1]) (set_last_modified 3 init)"
proof -
  let ?w = "sample_world (sample_frame [1]) 3"
  have rd: "read_csv ?w = Inr (sample_frame [1])" and st: "stat_mtime ?w = Inr 3"
    by (simp_all add: sample_world_def)
  have none: "last_data (set_last_modified 3 init) = None"
    by (simp add: last_data_set init_def)
  note c = calculate_changes_initial [OF none, of "now ?w" "sample_frame [1]"]
  show ?thesis
    unfolding committed_once_def by (rule commit_result(1) [OF rd sample_frame_valid st c])
qed

lemma committed_once_fields:
  "last_modified committed_once = Some 3"
  "last_data committed_once = Some (sample_frame [1])"
  by (simp_all add: committed_once_eq last_modified_set last_data_set)

theorem poll_against_recorded_marker_witness:
  "poll (Inr 5) committed_once \<and> \<not> poll (Inr 3) committed_once \<and>
   read_csv (sample_world (sample_frame [2]) 6) = Inr (sample_frame [2]) \<and>
   validate_columns (sample_frame [2]) \<and>
   stat_mtime (sample_world (sample_frame [2]) 6) = Inr 6 \<and>
   last_modified (fst (streaming_loop_iteration (Inr 5) (sample_world (sample_frame [2]) 6) committed_once))
     = Some 6 \<and>
   \<not> poll (Inr 6)
       (fst (streaming_loop_iteration (Inr 5) (sample_world (sample_frame [2]) 6) committed_once)) \<and>
   \<not> poll (Inl FileNotFoundError) committed_once \<and>
   streaming_loop_iteration (Inl FileNotFoundError) (sample_world (sample_frame [2]) 6) committed_once
     = (committed_once, [LogLoopError FileNotFoundError], None) \<and>
   fst (streaming_loop_iteration (Inr 5)
          (sample_world (drop_column ''Price'' (sample_frame [2])) 6) committed_once)
     = committed_once"
proof -
  let ?w = "sample_world (sample_frame [2]) 6"
  let ?bad = "sample_world (drop_column ''Price'' (sample_frame [2])) 6"
  have p: "poll (Inr 5) committed_once"
    by (simp add: poll_def file_changed_def committed_once_fields)
  have rd: "read_csv ?w = Inr (sample_frame [2])" and st: "stat_mtime ?w = Inr 6"
    by (simp_all add: sample_world_def)
  have bad: "\<exists>nd. read_csv ?bad = Inr nd \<and> \<not> validate_columns nd"
    by (simp add: sample_world_def frame_without_price_invalid)
  from poll_against_recorded_marker [of "Inr 5" committed_once ?w]
  have rec: "last_modified (fst (streaming_loop_iteration (Inr 5) ?w committed_once)) = Some 6 \<and>
      \<not> poll (Inr 6) (fst (streaming_loop_iteration (Inr 5) ?w committed_once))"
    using p rd st sample_frame_valid [of "[2]"] by blast
  from poll_against_recorded_marker [of "Inr 5" committed_once ?bad]
  have kept: "fst (streaming_loop_iteration (Inr 5) ?bad committed_once) = committed_once"
    using bad by blast
  from poll_against_recorded_marker [of "Inl FileNotFoundError" committed_once ?w]
  have fail: "\<not> poll (Inl FileNotFoundError) committed_once \<and>
      streaming_loop_iteration (Inl FileNotFoundError) ?w committed_once
        = (committed_once, [LogLoopError FileNotFoundError], None)"
    by blast
  from poll_against_recorded_marker [of "Inr 3" committed_once ?w] committed_once_fields(1)
  have same: "\<not> poll (Inr 3) committed_once" by blast
  from p same rd sample_frame_valid [of "[2]"] st rec fail kept show ?thesis by blast
qed

text \<open>
  Claim C7 says that the poll compares with the last time for which it signalled, and never
  signals twice for the same time. With time 3 recorded and a file of time 5 that lacks the
  column \<open>Price\<close>, the pass signals, the attempt fails the column check and records nothing,
  and the next pass signals again for the same time 5.
\<close>

theorem poll_same_marker_counterexample:
  "poll (Inr 5) committed_once \<and>
   poll (Inr 5)
     (fst (streaming_loop_iteration (Inr 5)
            (sample_world (drop_column ''Price'' (sample_frame [1])) 5) committed_once))"
proof -
  let ?w = "sample_world (drop_column ''Price'' (sample_frame [1])) 5"
  have p: "poll (Inr 5) committed_once"
    by (simp add: poll_def file_changed_def committed_once_fields)
  have rd: "read_csv ?w = Inr (drop_column ''Price'' (sample_frame [1]))"
    by (simp add: sample_world_def)
  have "streaming_loop_iteration (Inr 5) ?w committed_once = handle_file_change ?w committed_once"
    using p by (simp add: streaming_loop_iteration_poll)
  also have "\<dots> = (committed_once, [LogSchemaWarning], None)"
    by (rule handle_file_change_schema [OF rd frame_without_price_invalid])
  finally show ?thesis using p by simp
qed

subsection \<open>The stored table\<close>

lemma handle_file_change_last_data:
  "last_data (fst (handle_file_change w s)) = last_data s \<or>
   (\<exists>d. read_csv w = Inr d \<and> validate_columns d \<and>
        last_data (fst (handle_file_change w s)) = Some d)"
proof (cases "read_csv w")
  case (Inl e)
  then show ?thesis by (simp add: handle_file_change_parse_error)
next
  case (Inr nd)
  note rd = this
  show ?thesis
  proof (cases "validate_columns nd")
    case False
    with rd show ?thesis by (simp add: handle_file_change_schema)
  next
    case True
    note ok = this
    show ?thesis
    proof (cases "stat_mtime w")
      case (Inl e)
      with rd ok show ?thesis by (simp add: handle_file_change_stat_error)
    next
      case (Inr m)
      note st = this
      show ?thesis
      proof (cases "calculate_changes (now w) (set_last_modified m s) nd")
        case (Inl e)
        with rd ok st show ?thesis
          by (simp add: handle_file_change_calc_error last_data_set)
      next
        case (Inr chg)
        with rd ok st show ?thesis
          by (simp add: handle_file_change_commit last_data_set)
      qed
    qed
  qed
qed

lemma step_last_data:
  "last_data (fst (step a s)) = last_data s \<or>
   (\<exists>w d. action_world a = Some w \<and> read_csv w = Inr d \<and> validate_columns d \<and>
          last_data (fst (step a s)) = Some d)"
proof (cases a)
  case (Subscribe cb)
  then show ?thesis by (simp add: subscribe_def)
next
  case (Unsubscribe cb)
  then show ?thesis by (simp add: unsubscribe_def)
next
  case (StartMonitoring b)
  then show ?thesis by (simp add: start_monitoring_def)
next
  case StopMonitoring
  then show ?thesis by (simp add: stop_monitoring_def)
next
  case (LoopIteration st w)
  show ?thesis
  proof (cases "is_running s \<and> poll st s")
    case True
    then have "fst (step a s) = fst (handle_file_change w s)"
      using LoopIteration
      by (cases "handle_file_change w s") (simp add: streaming_loop_iteration_poll)
    with handle_file_change_last_data [of w s] LoopIteration show ?thesis by auto
  next
    case False
    then have "fst (step a s) = s"
      using LoopIteration by (auto simp add: streaming_loop_iteration_poll)
    then show ?thesis by simp
  qed
next
  case (OnModified b w)
  show ?thesis
  proof (cases b)
    case True
    then have "fst (step a s) = fst (handle_file_change w s)"
      using OnModified by (cases "handle_file_change w s") (simp add: on_modified_def)
    with handle_file_change_last_data [of w s] OnModified show ?thesis by auto
  next
    case False
    then have "fst (step a s) = s" using OnModified by (simp add: on_modified_def)
    then show ?thesis by simp
  qed
qed

lemma run_Cons_state: "fst (run (a # rest) s) = fst (run rest (fst (step a s)))"
  by (cases "step a s"; cases "run rest (fst (step a s))") simp

lemma run_Nil_state: "fst (run [] s) = s"
  by simp



lemma run_schema:
  assumes "\<forall>d. last_data s = Some d \<longrightarrow> validate_columns d"
  shows "\<forall>d. last_data (fst (run acts s)) = Some d \<longrightarrow> validate_columns d"
  using assms
proof (induction acts arbitrary: s)
  case Nil
  then show ?case by simp
next
  case (Cons a rest)
  have "\<forall>d. last_data (fst (step a s)) = Some d \<longrightarrow> validate_columns d"
    using step_last_data [of a s] Cons.prems by auto
  then have "\<forall>d. last_data (fst (run rest (fst (step a s)))) = Some d \<longrightarrow> validate_columns d"
    by (rule Cons.IH)
  then show ?case unfolding run_Cons_state .
qed



lemma header_only_len: "df_len header_only_frame = 0"
  by (simp add: df_len_def header_only_frame_def)





lemma handle_file_change_invocations_valid:
  "\<forall>i \<in> set (invocations (fst (snd (handle_file_change w s)))). validate_columns (fst (snd i))"
proof (cases "read_csv w")
  case (Inl e)
  then show ?thesis
    by (simp add: handle_file_change_parse_error invocations_Cons invocations_Nil)
next
  case (Inr nd)
  note rd = this
  show ?thesis
  proof (cases "validate_columns nd")
    case False
    with rd show ?thesis
      by (simp add: handle_file_change_schema invocations_Cons invocations_Nil)
  next
    case True
    note ok = this
    show ?thesis
    proof (cases "stat_mtime w")
      case (Inl e)
      with rd ok show ?thesis
        by (simp add: handle_file_change_stat_error invocations_Cons invocations_Nil)
    next
      case (Inr m)
      note st = this
      show ?thesis
      proof (cases "calculate_changes (now w) (set_last_modified m s) nd")
        case (Inl e)
        with rd ok st show ?thesis
          by (simp add: handle_file_change_calc_error invocations_Cons invocations_Nil)
      next
        case (Inr chg)
        show ?thesis
          unfolding commit_result(2) [OF rd ok st Inr] using ok by simp
      qed
    qed
  qed
qed

lemma step_invocations_valid:
  "\<forall>i \<in> set (invocations (snd (step a s))). validate_columns (fst (snd i))"
proof (cases a)
  case (Subscribe cb)
  then show ?thesis by (simp add: subscribe_def invocations_Cons invocations_Nil)
next
  case (Unsubscribe cb)
  then show ?thesis by (simp add: unsubscribe_def invocations_Cons invocations_Nil)
next
  case (StartMonitoring b)
  then show ?thesis by (simp add: start_monitoring_def invocations_Cons invocations_Nil)
next
  case StopMonitoring
  then show ?thesis by (simp add: stop_monitoring_def invocations_Cons invocations_Nil)
next
  case (LoopIteration st w)
  show ?thesis
  proof (cases "is_running s \<and> poll st s")
    case True
    then have "snd (step a s) = fst (snd (handle_file_change w s))"
      using LoopIteration
      by (cases "handle_file_change w s") (simp add: streaming_loop_iteration_poll)
    with handle_file_change_invocations_valid [of w s] show ?thesis by simp
  next
    case False
    then have "invocations (snd (step a s)) = []"
      using LoopIteration
      by (cases st) (auto simp add: streaming_loop_iteration_poll invocations_Cons invocations_Nil)
    then show ?thesis by simp
  qed
next
  case (OnModified b w)
  show ?thesis
  proof (cases b)
    case True
    then have "snd (step a s) = fst (snd (handle_file_change w s))"
      using OnModified by (cases "handle_file_change w s") (simp add: on_modified_def)
    with handle_file_change_invocations_valid [of w s] show ?thesis by simp
  next
    case False
    then have "invocations (snd (step a s)) = []"
      using OnModified by (simp add: on_modified_def invocations_Nil)
    then show ?thesis by simp
  qed
qed

lemma run_Cons_events:
  "snd (run (a # rest) s) = snd (step a s) @ snd (run rest (fst (step a s)))"
  by (cases "step a s"; cases "run rest (fst (step a s))") simp

lemma run_invocations_valid:
  "\<forall>i \<in> set (invocations (snd (run acts s))). validate_columns (fst (snd i))"
proof (induction acts arbitrary: s)
  case Nil
  show ?case by (simp add: invocations_Nil)
next
  case (Cons a rest)
  show ?case
    unfolding run_Cons_events invocations_append
    using step_invocations_valid [of a s] Cons.IH [of "fst (step a s)"] by auto
qed

text \<open>
  Claim C10. The constructor stores no table. A step leaves the stored table as it was or
  stores one that passed the column check. So after every run of steps from the initial
  state, a stored table has each of the fifteen expected columns; and so has every table
  handed to a subscriber during the run.
\<close>

theorem stored_table_has_expected_columns:
  "last_data init = None \<and>
   (\<forall>a s. last_data (fst (step a s)) = last_data s \<or>
          (\<exists>d. last_data (fst (step a s)) = Some d \<and> validate_columns d)) \<and>
   (\<forall>d. last_data (fst (run acts init)) = Some d \<longrightarrow>
      (\<forall>col \<in> set [''Date'', ''Store ID'', ''Product ID'', ''Category'', ''Region'',
                    ''Inventory Level'', ''Units Sold'', ''Units Ordered'', ''Demand Forecast'',
                    ''Price'', ''Discount'', ''Weather Condition'', ''Holiday/Promotion'',
                    ''Competitor Pricing'', ''Seasonality'']. col \<in> set (columns d))) \<and>
   (\<forall>i \<in> set (invocations (snd (run acts init))).
      \<forall>col \<in> set expected_columns. col \<in> set (columns (fst (snd i))))"
proof (intro conjI allI impI)
  show "last_data init = None" by (simp add: init_def)
  show "last_data (fst (step a s)) = last_data s \<or>
          (\<exists>d. last_data (fst (step a s)) = Some d \<and> validate_columns d)" for a s
    using step_last_data [of a s] by auto
  show "\<forall>col \<in> set [''Date'', ''Store ID'', ''Product ID'', ''Category'', ''Region'',
                    ''Inventory Level'', ''Units Sold'', ''Units Ordered'', ''Demand Forecast'',
                    ''Price'', ''Discount'', ''Weather Condition'', ''Holiday/Promotion'',
                    ''Competitor Pricing'', ''Seasonality'']. col \<in> set (columns d)"
    if "last_data (fst (run acts init)) = Some d" for d
  proof -
    have "\<forall>d. last_data init = Some d \<longrightarrow> validate_columns d" by (simp add: init_def)
    then have "validate_columns d" using run_schema [of init acts] that by blast
    then show ?thesis by (simp only: validate_columns_iff expected_columns_def)
  qed
  show "\<forall>i \<in> set (invocations (snd (run acts init))).
      \<forall>col \<in> set expected_columns. col \<in> set (columns (fst (snd i)))"
    using run_invocations_valid [of acts init] by (simp only: validate_columns_iff)
qed

theorem stored_table_has_expected_columns_witness:
  "last_data (fst (run [Subscribe 1, OnModified True (sample_world (sample_frame [1]) 3)] init))
     = Some (sample_frame [1]) \<and>
   ''Price'' \<in> set (columns (sample_frame [1])) \<and>
   ''Seasonality'' \<in> set (columns (sample_frame [1]))"
proof -
  let ?w = "sample_world (sample_frame [1]) 3"
  let ?s = "fst (subscribe 1 init)"
  have rd: "read_csv ?w = Inr (sample_frame [1])" and st: "stat_mtime ?w = Inr 3"
    by (simp_all add: sample_world_def)
  have none: "last_data (set_last_modified 3 ?s) = None"
    by (simp add: last_data_set init_def subscribe_def)
  note c = calculate_changes_initial [OF none, of "now ?w" "sample_frame [1]"]
  have eq: "fst (run [Subscribe 1, OnModified True ?w] init) = fst (handle_file_change ?w ?s)"
    by (cases "handle_file_change ?w ?s"; cases "subscribe 1 init") (simp add: on_modified_def)
  have stored: "last_data (fst (run [Subscribe 1, OnModified True ?w] init)) = Some (sample_frame [1])"
    unfolding eq commit_result(1) [OF rd sample_frame_valid st c] by (rule last_data_set(2))
  from stored_table_has_expected_columns [of "[Subscribe 1, OnModified True ?w]"] stored
  show ?thesis by simp
qed

subsection \<open>The summary\<close>

lemma get_data_summary_none:
  "last_data s = None \<Longrightarrow> get_data_summary pd t s = Inr [(''error'', SumStr ''No data available'')]"
  by (simp add: get_data_summary_def)

text \<open>
  Claim C9, amended. With no table stored, \<open>get_data_summary\<close> returns the single item
  \<open>error\<close>. With a table stored, it raises what \<open>min\<close> or \<open>max\<close> of the \<open>Date\<close> column
  raises, or returns the items \<open>timestamp\<close>, \<open>total_rows\<close>, \<open>columns\<close>, \<open>date_range\<close>,
  followed by \<open>numerical_summary\<close> exactly when the table has a numeric column.
\<close>

theorem summary_shape:
  "(last_data s = None \<longrightarrow>
      get_data_summary pd t s = Inr [(''error'', SumStr ''No data available'')]) \<and>
   (\<forall>df. last_data s = Some df \<longrightarrow>
      (case get_data_summary pd t s of
         Inl e \<Rightarrow> date_bound (series_min pd) df = Inl e \<or> date_bound (series_max pd) df = Inl e
       | Inr items \<Rightarrow>
           (\<exists>start_date end_date.
              date_bound (series_min pd) df = Inr start_date \<and>
              date_bound (series_max pd) df = Inr end_date \<and>
              items =
                [(''timestamp'', SumStr t), (''total_rows'', SumNat (df_len df)),
                 (''columns'', SumColumns (columns df)),
                 (''date_range'', SumDateRange start_date end_date)] @
                (if select_dtypes_number df = [] then []
                 else [(''numerical_summary'',
                        SumDescribe (describe_to_dict pd df (select_dtypes_number df)))]))))"
proof (intro conjI allI impI)
  assume "last_data s = None"
  then show "get_data_summary pd t s = Inr [(''error'', SumStr ''No data available'')]"
    by (rule get_data_summary_none)
next
  fix df assume "last_data s = Some df"
  then show "case get_data_summary pd t s of
         Inl e \<Rightarrow> date_bound (series_min pd) df = Inl e \<or> date_bound (series_max pd) df = Inl e
       | Inr items \<Rightarrow>
           (\<exists>start_date end_date.
              date_bound (series_min pd) df = Inr start_date \<and>
              date_bound (series_max pd) df = Inr end_date \<and>
              items =
                [(''timestamp'', SumStr t), (''total_rows'', SumNat (df_len df)),
                 (''columns'', SumColumns (columns df)),
                 (''date_range'', SumDateRange start_date end_date)] @
                (if select_dtypes_number df = [] then []
                 else [(''numerical_summary'',
                        SumDescribe (describe_to_dict pd df (select_dtypes_number df)))]))"
    by (cases "date_bound (series_min pd) df"; cases "date_bound (series_max pd) df")
       (simp_all add: get_data_summary_def Let_def)
qed

lemma sample_date_bound:
  "date_bound (series_min sample_pandas) (sample_frame [1]) = Inr (Some (StrVal ''2024-01-01''))"
  "date_bound (series_max sample_pandas) (sample_frame [1]) = Inr (Some (StrVal ''2024-01-01''))"
  by (simp_all add: date_bound_def sample_pandas_def sample_frame_def columns_def df_getitem_def)

lemma header_only_date_bound:
  "date_bound (series_min sample_pandas) header_only_frame = Inr (Some NaNVal)"
  "date_bound (series_max sample_pandas) header_only_frame = Inr (Some NaNVal)"
  by (simp_all add: date_bound_def sample_pandas_def header_only_frame_def columns_def
      df_getitem_def expected_columns_def)

lemma header_only_no_numeric: "select_dtypes_number header_only_frame = []"
  by (simp add: select_dtypes_number_def header_only_frame_def expected_columns_def)

theorem summary_shape_witness:
  "last_data init = None \<and>
   get_data_summary sample_pandas ''t'' init = Inr [(''error'', SumStr ''No data available'')] \<and>
   last_data committed_once = Some (sample_frame [1]) \<and>
   map_sum id (map fst) (get_data_summary sample_pandas ''t'' committed_once)
     = Inr [''timestamp'', ''total_rows'', ''columns'', ''date_range'', ''numerical_summary'']"
proof -
  have none: "last_data init = None" by (simp add: init_def)
  have num: "select_dtypes_number (sample_frame [1]) \<noteq> []"
    by (simp add: select_dtypes_number_def sample_frame_def)
  have "\<exists>items. get_data_summary sample_pandas ''t'' committed_once = Inr items \<and>
          map fst items = [''timestamp'', ''total_rows'', ''columns'', ''date_range'', ''numerical_summary'']"
    using summary_shape [of committed_once sample_pandas "''t''"] committed_once_fields(2) num
    by (cases "get_data_summary sample_pandas ''t'' committed_once")
       (auto simp add: sample_date_bound)
  then show ?thesis
    using summary_shape [of init sample_pandas "''t''"] none committed_once_fields(2) by auto
qed

text \<open>
  Claim C9 says that in every state the summary has a timestamp, a row count, the columns,
  a date range and a numeric summary. In the initial state it is the single item
  \<open>error\<close>; after the commit of a header-only file (no numeric column) it has no
  \<open>numerical_summary\<close>.
\<close>

theorem summary_without_data_counterexample:
  "get_data_summary sample_pandas ''t'' init = Inr [(''error'', SumStr ''No data available'')] \<and>
   last_data (fst (handle_file_change (sample_world header_only_frame 1) init))
     = Some header_only_frame \<and>
   get_data_summary sample_pandas ''t'' (fst (handle_file_change (sample_world header_only_frame 1) init))
     = Inr [(''timestamp'', SumStr ''t''), (''total_rows'', SumNat 0),
            (''columns'', SumColumns expected_columns),
            (''date_range'', SumDateRange (Some NaNVal) (Some NaNVal))]"
proof -
  let ?w = "sample_world header_only_frame 1"
  have rd: "read_csv ?w = Inr header_only_frame" and st: "stat_mtime ?w = Inr 1"
    by (simp_all add: sample_world_def)
  have none: "last_data (set_last_modified 1 init) = None"
    by (simp add: last_data_set init_def)
  note c = calculate_changes_initial [OF none, of "now ?w" header_only_frame]
  have stored: "last_data (fst (handle_file_change ?w init)) = Some header_only_frame"
    by (simp add: commit_result(1) [OF rd header_only_frame_valid st c] last_data_set)
  have cols: "columns header_only_frame = expected_columns"
    by (simp add: columns_def header_only_frame_def comp_def)
  have "get_data_summary sample_pandas ''t'' (fst (handle_file_change ?w init))
     = Inr [(''timestamp'', SumStr ''t''), (''total_rows'', SumNat 0),
            (''columns'', SumColumns expected_columns),
            (''date_range'', SumDateRange (Some NaNVal) (Some NaNVal))]"
    by (simp add: get_data_summary_def stored header_only_date_bound header_only_no_numeric
        header_only_len cols)
  then show ?thesis
    using stored by (simp add: get_data_summary_none init_def)
qed

end
